theory Spec2Isabelle
  imports Main "HOL-Library.Log_Nat"
begin

section \<open>Python values used by the resizer\<close>

text \<open>
  The program is a Tk application (\<^verbatim>\<open>Resizer2.0.py\<close>) around the Pillow imaging
  library. Exceptions are values: a computation that can raise has a result of type
  \<open>error + 'a\<close>, with \<open>Inl\<close> the exception.
\<close>

datatype error = ZeroDivisionError | OverflowError | ValueError | OSError | AttributeError

definition and_then :: "error + 'a \<Rightarrow> ('a \<Rightarrow> error + 'b) \<Rightarrow> error + 'b" where
  "and_then r f = (case r of Inl e \<Rightarrow> Inl e | Inr v \<Rightarrow> f v)"

subsection \<open>Floats\<close>

text \<open>
  A Python float is an IEEE 754 double. A finite double is modelled by the rational it
  denotes (the sign of zero plays no role in this program). Every float operation of the
  program is the exact operation followed by rounding to the nearest double, ties to even,
  which \<open>nearest_double\<close> computes: 53 significant bits, gradual underflow below
  \<open>2 ^ - 1022\<close>. The binary exponent of a finite double is at most 1023: \<open>to_float\<close>
  reports a result beyond that as \<open>OverflowError\<close>.
\<close>

definition pow2 :: "int \<Rightarrow> rat" where
  "pow2 k = (if 0 \<le> k then 2 ^ nat k else 1 / 2 ^ nat (- k))"

definition binary_exponent :: "rat \<Rightarrow> int" where
  \<comment> \<open>for \<open>0 < x\<close>: the \<open>e\<close> with \<open>2 ^ e \<le> x < 2 ^ (e + 1)\<close>\<close>
  "binary_exponent x =
     (case quotient_of x of (a, b) \<Rightarrow>
        let d = bitlen a - bitlen b in if pow2 d \<le> x then d else d - 1)"

definition round_half_even :: "rat \<Rightarrow> int" where
  "round_half_even q =
     (let f = \<lfloor>q\<rfloor>; r = q - of_int f
      in if r < 1 / 2 then f else if 1 / 2 < r then f + 1 else if even f then f else f + 1)"

definition nearest_double :: "rat \<Rightarrow> rat" where
  "nearest_double x =
     (if x = 0 then 0
      else let u = pow2 (max (binary_exponent \<bar>x\<bar>) (- 1022) - 52)
           in sgn x * of_int (round_half_even (\<bar>x\<bar> / u)) * u)"

definition to_float :: "rat \<Rightarrow> error + rat" where
  "to_float x =
     (let r = nearest_double x
      in if r \<noteq> 0 \<and> 1024 \<le> binary_exponent \<bar>r\<bar> then Inl OverflowError else Inr r)"

definition int_truediv :: "int \<Rightarrow> int \<Rightarrow> error + rat" where
  \<comment> \<open>\<^verbatim>\<open>a / b\<close> on two ints: the correctly rounded quotient\<close>
  "int_truediv a b = (if b = 0 then Inl ZeroDivisionError else to_float (of_int a / of_int b))"

definition int_to_float :: "int \<Rightarrow> error + rat" where
  "int_to_float n = to_float (of_int n)"

definition int_mul_float :: "int \<Rightarrow> rat \<Rightarrow> error + rat" where
  \<comment> \<open>\<^verbatim>\<open>n * y\<close>, int times float. A product beyond the doubles is \<^verbatim>\<open>inf\<close> in Python and
      the \<^verbatim>\<open>int()\<close> every product of this program is passed to raises \<open>OverflowError\<close> on
      it; the model raises at the product.\<close>
  "int_mul_float n y = and_then (int_to_float n) (\<lambda>x. to_float (x * y))"


definition float_to_int :: "rat \<Rightarrow> int" where
  \<comment> \<open>\<^verbatim>\<open>int(x)\<close>: truncation towards zero\<close>
  "float_to_int x = (if 0 \<le> x then \<lfloor>x\<rfloor> else \<lceil>x\<rceil>)"

section \<open>The imaging library\<close>

text \<open>
  An image is its size, its mode and its pixel data. The pixel computations of the
  library (resampling, rotation, compositing) are not interpreted: pixel data records
  which library operation produced it from which image. What the library's Python layer
  decides is modelled: \<^verbatim>\<open>Image.open\<close> is lazy, so the pixel data of an opened file may
  turn out to be unreadable, and then every operation that loads it raises \<open>OSError\<close>;
  \<^verbatim>\<open>resize\<close> to the image's own size is \<^verbatim>\<open>copy\<close>; \<^verbatim>\<open>resize\<close> refuses a size with a side
  below 1 (\<^verbatim>\<open>ValueError: height and width must be > 0\<close>); \<^verbatim>\<open>rotate\<close> by 180 degrees keeps
  the size and, with \<^verbatim>\<open>expand=True\<close>, by 90 or 270 degrees swaps the sides. Memory and
  other resource limits of the library are not modelled.
\<close>

datatype right_angle = Deg90 | Deg180 | Deg270

datatype image = Image (width: int) (height: int) (mode: string) (data: pixels)
  and pixels =
      Decoded nat \<comment> \<open>the pixels read from a file\<close>
    | Truncated \<comment> \<open>pixels of a file that cannot be read\<close>
    | Filled "int list" \<comment> \<open>\<^verbatim>\<open>Image.new\<close>: one colour everywhere\<close>
    | Resampled image \<comment> \<open>resampled from an image, to the size of the holder\<close>
    | Transposed right_angle image \<comment> \<open>rotated counter-clockwise\<close>
    | Cropped image \<comment> \<open>\<^verbatim>\<open>ImageOps.fit\<close>: scaled to cover, centre crop\<close>
    | Pasted image image int int \<comment> \<open>base, pasted image, left and top of the pasted image\<close>
    | Converted image

definition load :: "image \<Rightarrow> error + image" where
  "load img = (if data img = Truncated then Inl OSError else Inr img)"

definition copy :: "image \<Rightarrow> error + image" where
  "copy img = load img"

definition resize :: "image \<Rightarrow> int \<times> int \<Rightarrow> error + image" where
  "resize img sz =
     and_then (load img)
       (\<lambda>im. if (width im, height im) = sz then copy im
             else if fst sz < 1 \<or> snd sz < 1 then Inl ValueError
             else Inr (Image (fst sz) (snd sz) (mode im) (Resampled im)))"

definition rotate_expand :: "image \<Rightarrow> right_angle \<Rightarrow> error + image" where
  \<comment> \<open>\<^verbatim>\<open>img.rotate(angle, expand=True)\<close> for the three angles the program uses\<close>
  "rotate_expand img angle =
     and_then (load img)
       (\<lambda>im. Inr (if angle = Deg180
                   then Image (width im) (height im) (mode im) (Transposed angle im)
                   else Image (height im) (width im) (mode im) (Transposed angle im)))"

definition ImageOps_fit :: "image \<Rightarrow> int \<times> int \<Rightarrow> error + image" where
  \<comment> \<open>divides width by height for the image and for the request, then resizes the centred
      crop box of the request's ratio; for the image's own size the box is the whole image
      and the resize is a copy. Modelled for sides from 1; smaller sides are refused.\<close>
  "ImageOps_fit img sz =
     (if height img = 0 \<or> snd sz = 0 then Inl ZeroDivisionError
      else and_then (load img)
        (\<lambda>im. if (width im, height im) = sz then copy im
              else if fst sz < 1 \<or> snd sz < 1 \<or> width im < 1 \<or> height im < 1
              then Inl ValueError
              else Inr (Image (fst sz) (snd sz) (mode im) (Cropped im))))"

definition Image_new :: "string \<Rightarrow> int \<times> int \<Rightarrow> int list \<Rightarrow> error + image" where
  "Image_new m sz colour =
     (if fst sz < 0 \<or> snd sz < 0 then Inl ValueError
      else Inr (Image (fst sz) (snd sz) m (Filled colour)))"

definition paste :: "image \<Rightarrow> image \<Rightarrow> int \<times> int \<Rightarrow> error + image" where
  \<comment> \<open>\<^verbatim>\<open>base.paste(im, offset)\<close> changes \<open>base\<close> in place; the model returns the new value.
      What falls outside the base is clipped.\<close>
  "paste base im offset =
     and_then (load im)
       (\<lambda>i. Inr (Image (width base) (height base) (mode base)
                   (Pasted base i (fst offset) (snd offset))))"

definition convert :: "image \<Rightarrow> string \<Rightarrow> error + image" where
  "convert img m =
     and_then (load img) (\<lambda>im. Inr (Image (width im) (height im) m (Converted im)))"

text \<open>
  An opened file: the image, and what its \<^verbatim>\<open>_getexif()\<close> does. The method is missing on
  files without EXIF support (\<open>AttributeError\<close>), returns \<^verbatim>\<open>None\<close> when there is no
  metadata, or returns the dictionary from tag numbers to values.
\<close>

datatype exif_read = Exif_Raises error | Exif_None | Exif_Dict "(int \<times> int) list"

record image_file =
  raster :: image
  getexif :: exif_read

section \<open>The application\<close>

datatype recent_file =
    Missing \<comment> \<open>no file at \<^verbatim>\<open>RECENT_FILES_PATH\<close>\<close>
  | Unreadable \<comment> \<open>a file whose content is not a JSON list\<close>
  | Json_List "string list"

datatype status =
    Pronto | Caricato | Errore_di_caricamento | Errore_anteprima error

text \<open>
  The fields of \<^verbatim>\<open>ImageResizerApp\<close> the modelled methods read or write. The two spinboxes
  are modelled by what \<^verbatim>\<open>int()\<close> makes of their text: \<open>None\<close> where it raises
  \<open>ValueError\<close>. The size of the canvas widget and the file of recent paths belong to the
  environment; they are fields of the state so that the methods can be functions of it.
\<close>

record app =
  original_image :: "image option"
  processed_image :: "image option"
  resize_mode :: string
  aspect_locked :: bool
  preserve_exif :: bool
  orig_width :: int
  orig_height :: int
  aspect_ratio :: rat
  entry_width :: "int option"
  entry_height :: "int option"
  preview_job :: "nat option" \<comment> \<open>the delay of the pending debounced preview\<close>
  retry_scheduled :: bool \<comment> \<open>\<^verbatim>\<open>update_preview\<close> re-armed itself for an unsized canvas\<close>
  canvas_winfo_width :: int
  canvas_winfo_height :: int
  canvas_item :: "(int \<times> int \<times> image) option" \<comment> \<open>position and image drawn on the canvas\<close>
  recent_files :: recent_file
  status_var :: status

definition MAX_RECENT :: nat where
  "MAX_RECENT = 5"

definition init :: "int \<Rightarrow> int \<Rightarrow> recent_file \<Rightarrow> app" where
  \<comment> \<open>the state \<^verbatim>\<open>__init__\<close> sets up, for a canvas size and a file of recent paths\<close>
  "init cw ch rf =
     \<lparr>original_image = None, processed_image = None, resize_mode = ''fit'',
      aspect_locked = True, preserve_exif = True, orig_width = 0, orig_height = 0,
      aspect_ratio = 1, entry_width = Some 800, entry_height = Some 600,
      preview_job = None, retry_scheduled = False,
      canvas_winfo_width = cw, canvas_winfo_height = ch, canvas_item = None,
      recent_files = rf, status_var = Pronto\<rparr>"

definition get_dimensions :: "app \<Rightarrow> (int \<times> int) option" where
  "get_dimensions st =
     (case entry_width st of None \<Rightarrow> None
      | Some w \<Rightarrow>
        (case entry_height st of None \<Rightarrow> None
         | Some h \<Rightarrow> if w < 1 \<or> h < 1 then None else Some (w, h)))"

subsection \<open>Orientation\<close>

definition exif_rotation :: "image_file \<Rightarrow> error + image" where
  \<comment> \<open>the \<^verbatim>\<open>try\<close> block of \<^verbatim>\<open>apply_exif_orientation\<close>\<close>
  "exif_rotation f =
     (case getexif f of
        Exif_Raises e \<Rightarrow> Inl e
      | Exif_None \<Rightarrow> Inr (raster f)
      | Exif_Dict exif \<Rightarrow>
          if exif = [] then Inr (raster f)
          else let orientation = map_of exif 274 in
            if orientation = Some 3 then rotate_expand (raster f) Deg180
            else if orientation = Some 6 then rotate_expand (raster f) Deg270
            else if orientation = Some 8 then rotate_expand (raster f) Deg90
            else Inr (raster f))"

definition apply_exif_orientation :: "image_file \<Rightarrow> image" where
  \<comment> \<open>\<^verbatim>\<open>except: pass\<close> leaves \<^verbatim>\<open>img\<close> as it was\<close>
  "apply_exif_orientation f =
     (case exif_rotation f of Inl e \<Rightarrow> raster f | Inr img \<Rightarrow> img)"

subsection \<open>Resizing\<close>

definition process_image :: "app \<Rightarrow> int \<Rightarrow> int \<Rightarrow> error + image option" where
  "process_image st target_w target_h =
     (case original_image st of
        None \<Rightarrow> Inr None
      | Some original \<Rightarrow>
          and_then (copy original) (\<lambda>img.
            if resize_mode st = ''stretch'' then
              and_then (resize img (target_w, target_h)) (\<lambda>r. Inr (Some r))
            else if resize_mode st = ''cut'' then
              and_then (ImageOps_fit img (target_w, target_h)) (\<lambda>r. Inr (Some r))
            else if resize_mode st = ''fit'' then
              let orig_w = width img; orig_h = height img in
              and_then (int_truediv target_w orig_w) (\<lambda>sw.
              and_then (int_truediv target_h orig_h) (\<lambda>sh.
                let scale = min sw sh in
                and_then
                  (if 1 \<le> scale then Inr (orig_w, orig_h)
                   else and_then (int_mul_float orig_w scale) (\<lambda>x.
                        and_then (int_mul_float orig_h scale) (\<lambda>y.
                          Inr (float_to_int x, float_to_int y))))
                  (\<lambda>(new_w, new_h).
                and_then (resize img (new_w, new_h)) (\<lambda>resized.
                and_then
                  (if mode img = ''RGBA'' \<or> mode img = ''P''
                   then Image_new ''RGBA'' (target_w, target_h) [255, 255, 255, 0]
                   else Image_new ''RGB'' (target_w, target_h) [255, 255, 255])
                  (\<lambda>background.
                let offset = ((target_w - new_w) div 2, (target_h - new_h) div 2) in
                and_then (paste background resized offset) (\<lambda>b. Inr (Some b)))))))
            else Inr None))"

subsection \<open>Preview\<close>

definition show_preview :: "app \<Rightarrow> image \<Rightarrow> error + int \<times> int \<times> image" where
  \<comment> \<open>the part of \<^verbatim>\<open>update_preview\<close> after the canvas size check: the position and the image
      handed to \<^verbatim>\<open>create_image\<close>\<close>
  "show_preview st processed =
     (let canvas_w = canvas_winfo_width st; canvas_h = canvas_winfo_height st;
          img_w = width processed; img_h = height processed in
      and_then (int_truediv canvas_w img_w) (\<lambda>sw.
      and_then (int_truediv canvas_h img_h) (\<lambda>sh.
        let scale = min (min sw sh) 1 in
        and_then (int_mul_float img_w scale) (\<lambda>pw.
        and_then (int_mul_float img_h scale) (\<lambda>ph.
          let preview_w = float_to_int pw; preview_h = float_to_int ph in
          and_then (if scale < 1 then resize processed (preview_w, preview_h) else Inr processed)
            (\<lambda>display_img.
          and_then (if mode display_img = ''RGBA'' then convert display_img ''RGB''
                    else Inr display_img)
            (\<lambda>display_img.
              let x = (canvas_w - preview_w) div 2; y = (canvas_h - preview_h) div 2
              in Inr (x, y, display_img))))))))"

definition update_preview :: "app \<Rightarrow> app" where
  "update_preview st =
     (case original_image st of
        None \<Rightarrow> st
      | Some _ \<Rightarrow>
        (case get_dimensions st of
           None \<Rightarrow> st
         | Some (w, h) \<Rightarrow>
           (case process_image st w h of
              Inl e \<Rightarrow> st\<lparr>status_var := Errore_anteprima e\<rparr>
            | Inr None \<Rightarrow> st
            | Inr (Some processed) \<Rightarrow>
                let st1 = st\<lparr>processed_image := Some processed\<rparr> in
                if canvas_winfo_width st1 < 50 \<or> canvas_winfo_height st1 < 50
                then st1\<lparr>retry_scheduled := True\<rparr>
                else (case show_preview st1 processed of
                        Inl e \<Rightarrow> st1\<lparr>status_var := Errore_anteprima e\<rparr>
                      | Inr item \<Rightarrow> st1\<lparr>canvas_item := Some item\<rparr>))))"

subsection \<open>The aspect-ratio lock\<close>


subsection \<open>Recent files\<close>

definition add_recent_file :: "string \<Rightarrow> app \<Rightarrow> app" where
  \<comment> \<open>a failure to read the file as a list ends the \<^verbatim>\<open>try\<close> block before anything is written\<close>
  "add_recent_file filepath st =
     (case (case recent_files st of
              Missing \<Rightarrow> Some []
            | Unreadable \<Rightarrow> None
            | Json_List paths \<Rightarrow> Some paths) of
        None \<Rightarrow> st
      | Some recent \<Rightarrow>
          let recent = (if filepath \<in> set recent then remove1 filepath recent else recent);
              recent = filepath # recent;
              recent = take MAX_RECENT recent
          in st\<lparr>recent_files := Json_List recent\<rparr>)"

subsection \<open>Loading\<close>

definition load_image ::
  "(string \<Rightarrow> string) \<Rightarrow> string \<Rightarrow> error + image_file \<Rightarrow> app \<Rightarrow> app" where
  \<comment> \<open>\<^verbatim>\<open>load_image(filepath)\<close> for a given path. \<open>str_Path\<close> is what \<^verbatim>\<open>str(Path(filepath))\<close>
      makes of a path string on the platform; the third argument is what
      \<^verbatim>\<open>Image.open(filepath)\<close> does.\<close>
  "load_image str_Path filepath opened st =
     (case opened of
        Inl e \<Rightarrow> st\<lparr>status_var := Errore_di_caricamento\<rparr>
      | Inr f \<Rightarrow>
          let img = (if preserve_exif st then apply_exif_orientation f else raster f);
              st1 = st\<lparr>original_image := Some img,
                       orig_width := width img, orig_height := height img\<rparr>
          in (case (if orig_height st1 \<noteq> 0
                    then int_truediv (orig_width st1) (orig_height st1) else Inr 1) of
                Inl e \<Rightarrow> st1\<lparr>status_var := Errore_di_caricamento\<rparr>
              | Inr ratio \<Rightarrow>
                  let st2 = st1\<lparr>aspect_ratio := ratio,
                                entry_width := Some (orig_width st1),
                                entry_height := Some (orig_height st1)\<rparr>;
                      st3 = add_recent_file (str_Path filepath) st2;
                      st4 = update_preview (st3\<lparr>canvas_item := None\<rparr>)
                  in st4\<lparr>status_var := Caricato\<rparr>))"

section \<open>Properties of the floats\<close>

text \<open>
  Powers of two, the binary exponent and the rounding: \<open>binary_exponent\<close> is the floor
  of the binary logarithm, and \<open>nearest_double\<close> is within half a unit in the last place
  of its argument. The integers below \<open>2 ^ 53\<close> are doubles, so rounding never crosses
  them: this is what bounds the sides computed in floating point.
\<close>

lemma pow2_powi: "pow2 k = 2 powi k"
  by (simp add: pow2_def power_int_def inverse_eq_divide power_one_over)

lemma pow2_pos: "0 < pow2 k"
  by (simp add: pow2_powi)

lemma pow2_add: "pow2 (a + b) = pow2 a * pow2 b"
  by (simp add: pow2_powi power_int_add)

lemma pow2_mono: "a \<le> b \<Longrightarrow> pow2 a \<le> pow2 b"
  by (simp add: pow2_powi power_int_increasing)

lemma pow2_nat: "pow2 (int n) = 2 ^ n"
  by (simp add: pow2_def)

lemma pow2_neg_nat: "pow2 (- int n) * 2 ^ n = 1"
  by (simp add: pow2_powi power_int_minus)

lemma binary_exponent_le:
  assumes "0 < x"
  shows "pow2 (binary_exponent x) \<le> x"
proof -
  obtain a b where q: "quotient_of x = (a, b)" by (cases "quotient_of x")
  then have b: "0 < b" and x: "x = of_int a / of_int b"
    using quotient_of_denom_pos quotient_of_div by blast+
  from assms x b have a: "0 < a"
    by (simp add: zero_less_divide_iff)
  define i where "i = nat (bitlen a - 1)"
  define j where "j = nat (bitlen b)"
  have la: "1 \<le> bitlen a" using a by (simp add: bitlen_alt_def)
  have ia: "(2::int) ^ i \<le> a" using bitlen_bounds [OF a] by (simp add: i_def)
  have jb: "b < (2::int) ^ j" using bitlen_bounds [OF b] by (simp add: j_def)
  have d: "bitlen a - bitlen b - 1 = int i - int j"
    using la bitlen_nonneg [of b] by (simp add: i_def j_def)
  have "pow2 (int i - int j) = pow2 (int i) * pow2 (- int j)"
    using pow2_add [of "int i" "- int j"] by simp
  also have "\<dots> = 2 ^ i / 2 ^ j"
    using pow2_neg_nat [of j] by (simp add: pow2_nat field_simps)
  also have "\<dots> \<le> of_int a / of_int b"
  proof (rule frac_le)
    show "(2::rat) ^ i \<le> of_int a" using ia by (metis of_int_le_iff of_int_numeral of_int_power)
    show "(0::rat) < of_int b" using b by simp
    show "(of_int b :: rat) \<le> 2 ^ j" using jb by (metis less_imp_le of_int_le_iff of_int_numeral of_int_power)
  qed (use a in simp)
  finally have low: "pow2 (bitlen a - bitlen b - 1) \<le> x" by (simp add: d x)
  show ?thesis
    using low by (simp add: binary_exponent_def q Let_def)
qed

lemma binary_exponent_gt:
  assumes "0 < x"
  shows "x < pow2 (binary_exponent x + 1)"
proof -
  obtain a b where q: "quotient_of x = (a, b)" by (cases "quotient_of x")
  then have b: "0 < b" and x: "x = of_int a / of_int b"
    using quotient_of_denom_pos quotient_of_div by blast+
  from assms x b have a: "0 < a"
    by (simp add: zero_less_divide_iff)
  define i where "i = nat (bitlen a)"
  define j where "j = nat (bitlen b - 1)"
  have lb: "1 \<le> bitlen b" using b by (simp add: bitlen_alt_def)
  have ia: "a < (2::int) ^ i" using bitlen_bounds [OF a] by (simp add: i_def)
  have jb: "(2::int) ^ j \<le> b" using bitlen_bounds [OF b] by (simp add: j_def)
  have d: "bitlen a - bitlen b + 1 = int i - int j"
    using lb bitlen_nonneg [of a] by (simp add: i_def j_def)
  have "of_int a / of_int b < (2::rat) ^ i / 2 ^ j"
  proof (rule frac_less)
    show "(of_int a :: rat) < 2 ^ i" using ia by (metis of_int_less_iff of_int_numeral of_int_power)
    show "(2::rat) ^ j \<le> of_int b" using jb by (metis of_int_le_iff of_int_numeral of_int_power)
  qed (use a in simp_all)
  also have "(2::rat) ^ i / 2 ^ j = pow2 (int i) * pow2 (- int j)"
    using pow2_neg_nat [of j] by (simp add: pow2_nat field_simps)
  also have "\<dots> = pow2 (int i - int j)"
    using pow2_add [of "int i" "- int j"] by simp
  finally have up: "x < pow2 (bitlen a - bitlen b + 1)" by (simp add: d x)
  show ?thesis
    using up by (auto simp: binary_exponent_def q Let_def not_le)
qed

lemma binary_exponent_less:
  assumes "0 < x" and "x < 2 ^ n"
  shows "binary_exponent x < int n"
proof (rule ccontr)
  assume "\<not> binary_exponent x < int n"
  then have "pow2 (int n) \<le> pow2 (binary_exponent x)" by (simp add: pow2_mono)
  then have "2 ^ n \<le> x" using binary_exponent_le [OF assms(1)] by (simp add: pow2_nat)
  then show False using assms(2) by simp
qed

lemma round_half_even_le:
  assumes "q \<le> of_int m"
  shows "round_half_even q \<le> m"
proof -
  have f: "\<lfloor>q\<rfloor> \<le> m" using assms by (simp add: floor_le_iff)
  show ?thesis
  proof (cases "\<lfloor>q\<rfloor> = m")
    case True
    then have "q - of_int \<lfloor>q\<rfloor> \<le> 0" using assms by simp
    then show ?thesis using True by (simp add: round_half_even_def Let_def)
  next
    case False
    then have "\<lfloor>q\<rfloor> + 1 \<le> m" using f by simp
    then show ?thesis using f by (simp add: round_half_even_def Let_def)
  qed
qed

lemma round_half_even_ge:
  assumes "of_int m \<le> q"
  shows "m \<le> round_half_even q"
proof -
  have "m \<le> \<lfloor>q\<rfloor>" using assms by (simp add: le_floor_iff)
  then show ?thesis by (simp add: round_half_even_def Let_def)
qed

lemma round_half_even_nearest: "\<bar>of_int (round_half_even q) - q\<bar> \<le> 1 / 2"
proof -
  have "of_int \<lfloor>q\<rfloor> \<le> q" and "q < of_int \<lfloor>q\<rfloor> + 1" by linarith+
  then show ?thesis by (auto simp: round_half_even_def Let_def abs_le_iff)
qed

lemma nearest_double_error:
  assumes "0 < x"
  shows "\<bar>nearest_double x - x\<bar> \<le> pow2 (max (binary_exponent x) (- 1022) - 52) / 2"
proof -
  define u where "u = pow2 (max (binary_exponent x) (- 1022) - 52)"
  have upos: "0 < u" by (simp add: u_def pow2_pos)
  have "nearest_double x - x = (of_int (round_half_even (x / u)) - x / u) * u"
    using assms upos by (simp add: nearest_double_def Let_def u_def field_simps)
  then have "\<bar>nearest_double x - x\<bar> = \<bar>of_int (round_half_even (x / u)) - x / u\<bar> * u"
    using upos by (simp add: abs_mult)
  also have "\<dots> \<le> (1 / 2) * u"
    using round_half_even_nearest [of "x / u"] upos by (intro mult_right_mono) simp_all
  finally show ?thesis by (simp add: u_def)
qed

lemma nearest_double_nonneg:
  assumes "0 \<le> x"
  shows "0 \<le> nearest_double x"
proof (cases "x = 0")
  case True
  then show ?thesis by (simp add: nearest_double_def)
next
  case False
  then have "0 < x" using assms by simp
  moreover have "0 \<le> round_half_even (\<bar>x\<bar> / pow2 (max (binary_exponent \<bar>x\<bar>) (- 1022) - 52))"
    by (rule round_half_even_ge) (simp add: pow2_pos less_imp_le)
  ultimately show ?thesis
    by (simp add: nearest_double_def Let_def pow2_pos less_imp_le)
qed

lemma nearest_double_nonpos:
  assumes "x \<le> 0"
  shows "nearest_double x \<le> 0"
proof (cases "x = 0")
  case True
  then show ?thesis by (simp add: nearest_double_def)
next
  case False
  then have neg: "x < 0" using assms by simp
  define u where "u = pow2 (max (binary_exponent \<bar>x\<bar>) (- 1022) - 52)"
  have "0 \<le> round_half_even (\<bar>x\<bar> / u)"
    by (rule round_half_even_ge) (simp add: u_def pow2_pos less_imp_le)
  then have "0 \<le> of_int (round_half_even (\<bar>x\<bar> / u)) * u"
    by (simp add: u_def pow2_pos less_imp_le)
  then show ?thesis using neg False by (simp add: nearest_double_def Let_def u_def)
qed

lemma less_two_power_53:
  assumes "x \<le> of_int c" and "c < 2 ^ 53"
  shows "x < (2::rat) ^ 53"
proof -
  have "(of_int c :: rat) < of_int (2 ^ 53)" using assms(2) by (simp only: of_int_less_iff)
  then show ?thesis using assms(1) by simp
qed

lemma nearest_double_le_int:
  assumes "0 \<le> x" and "x \<le> of_int c" and "c < 2 ^ 53"
  shows "nearest_double x \<le> of_int c"
proof (cases "x = 0")
  case True
  then show ?thesis using assms by (simp add: nearest_double_def)
next
  case False
  then have pos: "0 < x" using assms by simp
  have "x < 2 ^ 53" using assms(2,3) by (rule less_two_power_53)
  then have e: "binary_exponent x < 53" using binary_exponent_less [OF pos, of 53] by simp
  define k where "k = nat (52 - max (binary_exponent x) (- 1022))"
  define u where "u = pow2 (max (binary_exponent x) (- 1022) - 52)"
  have ku: "max (binary_exponent x) (- 1022) - 52 = - int k" using e by (simp add: k_def)
  have u: "u * 2 ^ k = 1" unfolding u_def ku by (rule pow2_neg_nat)
  have upos: "0 < u" by (simp add: u_def pow2_pos)
  have "x / u = x * 2 ^ k" using u upos by (simp add: field_simps)
  also have "\<dots> \<le> of_int c * 2 ^ k" using assms(2) by simp
  also have "\<dots> = of_int (c * 2 ^ k)" by simp
  finally have "round_half_even (x / u) \<le> c * 2 ^ k" by (rule round_half_even_le)
  then have "(of_int (round_half_even (x / u)) :: rat) \<le> of_int (c * 2 ^ k)"
    by (simp only: of_int_le_iff)
  then have "of_int (round_half_even (x / u)) * u \<le> of_int (c * 2 ^ k) * u"
    using upos by (simp add: mult_right_mono)
  also have "\<dots> = of_int c * (u * 2 ^ k)" by simp
  finally have "of_int (round_half_even (x / u)) * u \<le> of_int c" by (simp add: u)
  then show ?thesis using pos False
    by (simp add: nearest_double_def Let_def u_def)
qed

lemma nearest_double_ge_int:
  assumes "0 \<le> c" and "of_int c \<le> x" and "c < 2 ^ 53"
  shows "of_int c \<le> nearest_double x"
proof (cases "x = 0")
  case True
  then show ?thesis using assms by (simp add: nearest_double_def)
next
  case False
  then have pos: "0 < x" using assms by simp
  define e where "e = max (binary_exponent x) (- 1022)"
  define u where "u = pow2 (e - 52)"
  have upos: "0 < u" by (simp add: u_def pow2_pos)
  have nd: "nearest_double x = of_int (round_half_even (x / u)) * u"
    using pos False by (simp add: nearest_double_def Let_def u_def e_def)
  show ?thesis
  proof (cases "e \<le> 52")
    case True
    define k where "k = nat (52 - e)"
    have ku: "e - 52 = - int k" using True by (simp add: k_def)
    have u: "u * 2 ^ k = 1" unfolding u_def ku by (rule pow2_neg_nat)
    have "(of_int (c * 2 ^ k) :: rat) = of_int c * 2 ^ k" by simp
    also have "\<dots> \<le> x * 2 ^ k" using assms(2) by simp
    also have "\<dots> = x / u" using u upos by (simp add: field_simps)
    finally have "c * 2 ^ k \<le> round_half_even (x / u)" by (rule round_half_even_ge)
    then have "(of_int (c * 2 ^ k) :: rat) \<le> of_int (round_half_even (x / u))"
      by (simp only: of_int_le_iff)
    then have "of_int (c * 2 ^ k) * u \<le> of_int (round_half_even (x / u)) * u"
      using upos by (simp add: mult_right_mono)
    also have "of_int (round_half_even (x / u)) * u = nearest_double x" by (simp add: nd)
    finally have "of_int (c * 2 ^ k) * u \<le> nearest_double x" .
    moreover have "of_int (c * 2 ^ k) * u = of_int c * (u * 2 ^ k)" by simp
    ultimately have "of_int c * (u * 2 ^ k) \<le> nearest_double x" by (simp only:)
    then show ?thesis by (simp only: u mult_1_right)
  next
    case False
    then have ee: "e = binary_exponent x" and big: "53 \<le> e" by (auto simp: e_def)
    have "pow2 52 * u = pow2 e" using pow2_add [of 52 "e - 52"] by (simp add: u_def)
    moreover have "pow2 e \<le> x" unfolding ee using pos by (rule binary_exponent_le)
    ultimately have "pow2 52 \<le> x / u" using upos by (simp add: field_simps)
    then have "(of_int (2 ^ 52) :: rat) \<le> x / u" by (simp add: pow2_def)
    then have "2 ^ 52 \<le> round_half_even (x / u)" by (rule round_half_even_ge)
    then have "(of_int (2 ^ 52) :: rat) \<le> of_int (round_half_even (x / u))"
      by (simp only: of_int_le_iff)
    then have "of_int (2 ^ 52) * u \<le> of_int (round_half_even (x / u)) * u"
      using upos by (simp add: mult_right_mono)
    moreover have "of_int (2 ^ 52) * u = pow2 e"
      using \<open>pow2 52 * u = pow2 e\<close> by (simp add: pow2_def)
    moreover have "pow2 53 \<le> pow2 e" using big by (rule pow2_mono)
    moreover have "(of_int c :: rat) < 2 ^ 53"
      using assms(3) less_two_power_53 [of "of_int c" c] by simp
    ultimately show ?thesis by (simp add: nd pow2_def)
  qed
qed

lemma nearest_double_of_int:
  assumes "0 \<le> n" and "n < 2 ^ 53"
  shows "nearest_double (of_int n) = of_int n"
proof (rule antisym)
  show "nearest_double (of_int n) \<le> of_int n"
    using assms by (intro nearest_double_le_int) simp_all
  show "of_int n \<le> nearest_double (of_int n)"
    using assms by (intro nearest_double_ge_int) simp_all
qed

lemma nearest_double_ge_one_imp_nonneg:
  assumes "1 \<le> nearest_double (of_int a / of_int b)" and "1 \<le> b"
  shows "0 \<le> a"
proof (rule ccontr)
  assume "\<not> 0 \<le> a"
  then have "(of_int a :: rat) / of_int b \<le> 0"
    using assms(2) by (simp add: divide_le_0_iff)
  then have "nearest_double (of_int a / of_int b) \<le> 0" by (rule nearest_double_nonpos)
  then show False using assms(1) by simp
qed

lemma nearest_double_examples:
  "nearest_double (1 / 4) = 1 / 4" "nearest_double 1 = 1" "nearest_double 2 = 2"
  "nearest_double (7 / 4) = 7 / 4" "\<lfloor>7 / 4 :: rat\<rfloor> = 1"
  by code_simp+

subsection \<open>The float operations of the program\<close>

lemma and_then_Inr [simp]: "and_then (Inr v) f = f v"
  by (simp add: and_then_def)

lemma and_then_Inl [simp]: "and_then (Inl e) f = Inl e"
  by (simp add: and_then_def)

lemma and_then_eq_Inr: "and_then r f = Inr y \<longleftrightarrow> (\<exists>v. r = Inr v \<and> f v = Inr y)"
  by (cases r) simp_all

lemma to_float_bounded:
  assumes "0 \<le> x" and "x \<le> of_int c" and "c < 2 ^ 53"
  shows "to_float x = Inr (nearest_double x)"
proof (cases "nearest_double x = 0")
  case True
  then show ?thesis by (simp add: to_float_def)
next
  case False
  then have "0 < nearest_double x" using nearest_double_nonneg [OF assms(1)] by simp
  moreover have "nearest_double x < 2 ^ 53"
    using nearest_double_le_int [OF assms] assms(3) by (rule less_two_power_53)
  ultimately have "binary_exponent (nearest_double x) < 53"
    using binary_exponent_less [of "nearest_double x" 53] by simp
  then show ?thesis using \<open>0 < nearest_double x\<close> by (simp add: to_float_def Let_def)
qed

lemma to_float_Inr: "to_float x = Inr r \<Longrightarrow> r = nearest_double x"
  by (simp add: to_float_def Let_def split: if_splits)

lemma int_truediv_bounded:
  assumes "0 \<le> n" and "n < 2 ^ 53" and "1 \<le> d"
  shows "int_truediv n d = Inr (nearest_double (of_int n / of_int d))"
proof -
  have "(of_int n :: rat) / of_int d \<le> of_int n / 1"
    using assms by (intro divide_left_mono) simp_all
  then have "to_float (of_int n / of_int d) = Inr (nearest_double (of_int n / of_int d))"
    using assms by (intro to_float_bounded [where c = n]) simp_all
  then show ?thesis using assms by (simp add: int_truediv_def)
qed

lemma int_truediv_Inr: "int_truediv a b = Inr r \<Longrightarrow> b \<noteq> 0 \<and> r = nearest_double (of_int a / of_int b)"
  by (auto simp: int_truediv_def dest: to_float_Inr split: if_splits)

lemma int_mul_float_bounded:
  assumes "0 \<le> n" and "n < 2 ^ 53" and "0 \<le> y" and "y \<le> 1"
  shows "int_mul_float n y = Inr (nearest_double (of_int n * y))"
proof -
  have "int_to_float n = Inr (of_int n)"
    using assms to_float_bounded [of "of_int n" n] by (simp add: int_to_float_def nearest_double_of_int)
  moreover have "of_int n * y \<le> of_int n * 1" using assms by (intro mult_left_mono) simp_all
  then have "to_float (of_int n * y) = Inr (nearest_double (of_int n * y))"
    using assms by (intro to_float_bounded [where c = n]) simp_all
  ultimately show ?thesis by (simp add: int_mul_float_def and_then_def)
qed

lemma int_mul_float_Inr:
  assumes "int_mul_float n y = Inr x" and "0 \<le> n" and "n < 2 ^ 53"
  shows "x = nearest_double (of_int n * y)"
proof -
  from assms(1) obtain v where v: "int_to_float n = Inr v" and x: "to_float (v * y) = Inr x"
    by (auto simp: int_mul_float_def and_then_eq_Inr)
  from v have "v = nearest_double (of_int n)" by (simp add: int_to_float_def to_float_Inr)
  then have "v = of_int n" using assms(2,3) by (simp add: nearest_double_of_int)
  then show ?thesis using x by (simp add: to_float_Inr)
qed

lemma float_to_int_bounds:
  assumes "0 \<le> x" and "x \<le> of_int n"
  shows "0 \<le> float_to_int x \<and> float_to_int x \<le> n"
  using assms by (simp add: float_to_int_def floor_le_iff)

lemma float_to_int_of_int: "float_to_int (of_int n) = n"
  by (simp add: float_to_int_def)

lemma int_mul_float_one:
  assumes "int_mul_float n 1 = Inr x" and "0 \<le> n" and "n < 2 ^ 53"
  shows "float_to_int x = n"
  using int_mul_float_Inr [OF assms] assms(2,3)
  by (simp add: nearest_double_of_int float_to_int_of_int)

lemma scaled_side_bounds:
  assumes "0 \<le> n" and "n < 2 ^ 53" and "0 \<le> y" and "y \<le> 1"
  shows "0 \<le> float_to_int (nearest_double (of_int n * y))
       \<and> float_to_int (nearest_double (of_int n * y)) \<le> n"
proof (rule float_to_int_bounds)
  show "0 \<le> nearest_double (of_int n * y)" using assms by (intro nearest_double_nonneg) simp
  have "of_int n * y \<le> of_int n * 1" using assms by (intro mult_left_mono) simp_all
  then show "nearest_double (of_int n * y) \<le> of_int n"
    using assms by (intro nearest_double_le_int) simp_all
qed

lemma scaled_side_le:
  assumes "0 \<le> n" and "n < 2 ^ 53" and "y \<le> 1"
  shows "float_to_int (nearest_double (of_int n * y)) \<le> n"
proof (cases "0 \<le> y")
  case True
  then show ?thesis using scaled_side_bounds [OF assms(1,2) True assms(3)] by simp
next
  case False
  then have "of_int n * y \<le> 0" using assms(1) by (simp add: mult_nonneg_nonpos)
  then have "nearest_double (of_int n * y) \<le> 0" by (rule nearest_double_nonpos)
  then have "float_to_int (nearest_double (of_int n * y)) \<le> 0"
    by (simp add: float_to_int_def ceiling_le_iff floor_le_iff)
  then show ?thesis using assms(1) by simp
qed

section \<open>Properties of the library operations\<close>

lemma load_Inr: "load img = Inr im \<longleftrightarrow> data img \<noteq> Truncated \<and> im = img"
  by (auto simp: load_def)

lemma copy_Inr: "copy img = Inr im \<longleftrightarrow> data img \<noteq> Truncated \<and> im = img"
  by (simp add: copy_def load_Inr)

lemma copy_decoded: "data img \<noteq> Truncated \<Longrightarrow> copy img = Inr img"
  by (simp add: copy_Inr)

lemma resize_size:
  assumes "resize img sz = Inr r"
  shows "width r = fst sz \<and> height r = snd sz"
  using assms by (auto simp: resize_def and_then_eq_Inr load_Inr copy_Inr split: if_splits)

lemma resize_same: "data img \<noteq> Truncated \<Longrightarrow> resize img (width img, height img) = Inr img"
  by (simp add: resize_def load_def copy_def)

lemma resize_decoded:
  assumes "resize img sz = Inr r"
  shows "data r \<noteq> Truncated"
  using assms by (auto simp: resize_def and_then_eq_Inr load_Inr copy_Inr split: if_splits)

lemma resize_ok:
  assumes "data img \<noteq> Truncated" and "1 \<le> fst sz" and "1 \<le> snd sz"
  shows "\<exists>r. resize img sz = Inr r \<and> width r = fst sz \<and> height r = snd sz"
  using assms by (cases sz) (auto simp: resize_def load_def copy_def)

lemma resize_refused:
  assumes "data img \<noteq> Truncated" and "fst sz < 1 \<or> snd sz < 1"
    and "1 \<le> width img" and "1 \<le> height img"
  shows "resize img sz = Inl ValueError"
  using assms by (cases sz) (auto simp: resize_def load_def copy_def)

lemma ImageOps_fit_size:
  assumes "ImageOps_fit img sz = Inr r"
  shows "width r = fst sz \<and> height r = snd sz"
  using assms
  by (auto simp: ImageOps_fit_def and_then_eq_Inr load_Inr copy_Inr split: if_splits)

lemma ImageOps_fit_ok:
  assumes "data img \<noteq> Truncated" and "1 \<le> width img" and "1 \<le> height img"
    and "1 \<le> fst sz" and "1 \<le> snd sz"
  shows "\<exists>r. ImageOps_fit img sz = Inr r"
  using assms by (cases sz) (auto simp: ImageOps_fit_def load_def copy_def)

lemma Image_new_Inr:
  "Image_new m sz c = Inr b \<longleftrightarrow> 0 \<le> fst sz \<and> 0 \<le> snd sz \<and> b = Image (fst sz) (snd sz) m (Filled c)"
  by (auto simp: Image_new_def)

lemma paste_Inr:
  "paste base im off = Inr b \<longleftrightarrow>
     data im \<noteq> Truncated \<and> b = Image (width base) (height base) (mode base) (Pasted base im (fst off) (snd off))"
  by (auto simp: paste_def and_then_eq_Inr load_Inr)

lemma convert_size:
  assumes "convert img m = Inr r"
  shows "width r = width img \<and> height r = height img"
  using assms by (auto simp: convert_def and_then_eq_Inr load_Inr)

lemma rotate_expand_decoded:
  "data img \<noteq> Truncated \<Longrightarrow>
   rotate_expand img angle =
     Inr (if angle = Deg180 then Image (width img) (height img) (mode img) (Transposed angle img)
          else Image (height img) (width img) (mode img) (Transposed angle img))"
  by (simp add: rotate_expand_def load_def)

section \<open>Fit mode\<close>

text \<open>
  What \<open>process_image\<close> does in Fit mode, first for any image it returns, then as a
  function of the scale, then for sides below \<open>2 ^ 53\<close>, where the quotients and
  products cannot overflow.
\<close>

lemma process_image_fit_Some:
  assumes "original_image st = Some src" and "resize_mode st = ''fit''"
    and "process_image st tw th = Inr (Some out)"
  shows "\<exists>sw sh nw nh inner bg.
           int_truediv tw (width src) = Inr sw \<and> int_truediv th (height src) = Inr sh
         \<and> (if 1 \<le> min sw sh then Inr (width src, height src)
             else and_then (int_mul_float (width src) (min sw sh)) (\<lambda>x.
                  and_then (int_mul_float (height src) (min sw sh)) (\<lambda>y.
                    Inr (float_to_int x, float_to_int y)))) = Inr (nw, nh)
         \<and> resize src (nw, nh) = Inr inner
         \<and> out = Image tw th (mode bg) (Pasted bg inner ((tw - nw) div 2) ((th - nh) div 2))
         \<and> width bg = tw \<and> height bg = th \<and> data src \<noteq> Truncated"
  using assms
  by (auto simp: process_image_def and_then_eq_Inr copy_Inr Let_def Image_new_Inr paste_Inr
           split: if_splits)

lemma process_image_fit_scale:
  assumes "original_image st = Some src" and "resize_mode st = ''fit''"
    and "data src \<noteq> Truncated"
    and "int_truediv tw (width src) = Inr sw" and "int_truediv th (height src) = Inr sh"
    and "scale = min sw sh"
  shows "process_image st tw th =
     and_then
       (if 1 \<le> scale then Inr (width src, height src)
        else and_then (int_mul_float (width src) scale) (\<lambda>x.
             and_then (int_mul_float (height src) scale) (\<lambda>y.
               Inr (float_to_int x, float_to_int y))))
       (\<lambda>(new_w, new_h).
          and_then (resize src (new_w, new_h)) (\<lambda>resized.
          and_then
            (if mode src = ''RGBA'' \<or> mode src = ''P''
             then Image_new ''RGBA'' (tw, th) [255, 255, 255, 0]
             else Image_new ''RGB'' (tw, th) [255, 255, 255])
            (\<lambda>background.
               and_then (paste background resized ((tw - new_w) div 2, (th - new_h) div 2))
                 (\<lambda>b. Inr (Some b)))))"
  using assms by (simp add: process_image_def copy_decoded Let_def)

lemma process_image_fit_bounded:
  assumes src: "original_image st = Some src" "resize_mode st = ''fit''" "data src \<noteq> Truncated"
    and w: "1 \<le> width src" "width src < 2 ^ 53" and h: "1 \<le> height src" "height src < 2 ^ 53"
    and tw: "0 \<le> tw" "tw < 2 ^ 53" and th: "0 \<le> th" "th < 2 ^ 53"
  shows "process_image st tw th =
     (let scale = min (nearest_double (of_int tw / of_int (width src)))
                      (nearest_double (of_int th / of_int (height src)));
          new_w = (if 1 \<le> scale then width src
                   else float_to_int (nearest_double (of_int (width src) * scale)));
          new_h = (if 1 \<le> scale then height src
                   else float_to_int (nearest_double (of_int (height src) * scale)))
      in and_then (resize src (new_w, new_h)) (\<lambda>resized.
           and_then
             (if mode src = ''RGBA'' \<or> mode src = ''P''
              then Image_new ''RGBA'' (tw, th) [255, 255, 255, 0]
              else Image_new ''RGB'' (tw, th) [255, 255, 255])
             (\<lambda>background.
                Inr (Some (Image tw th (mode background)
                  (Pasted background resized ((tw - new_w) div 2) ((th - new_h) div 2)))))))"
proof -
  define scale where "scale = min (nearest_double (of_int tw / of_int (width src)))
                                  (nearest_double (of_int th / of_int (height src)))"
  have sw: "int_truediv tw (width src) = Inr (nearest_double (of_int tw / of_int (width src)))"
    using tw w by (intro int_truediv_bounded) simp_all
  have sh: "int_truediv th (height src) = Inr (nearest_double (of_int th / of_int (height src)))"
    using th h by (intro int_truediv_bounded) simp_all
  have s0: "0 \<le> scale"
    using tw th w h by (simp add: scale_def nearest_double_nonneg)
  have bg: "Image_new m (tw, th) c = Inr (Image tw th m (Filled c))" for m c
    using tw th by (simp add: Image_new_def)
  have ps: "paste b r (x, y) = Inr (Image (width b) (height b) (mode b) (Pasted b r x y))"
    if "resize src off = Inr r" for b r x y off
    using that by (simp add: paste_Inr resize_decoded)
  note eq = process_image_fit_scale [OF src sw sh scale_def]
  have ?thesis if "1 \<le> scale"
  proof (cases "resize src (width src, height src)")
    case (Inl e)
    then show ?thesis
      unfolding Let_def scale_def [symmetric] eq using that by simp
  next
    case (Inr r)
    then show ?thesis
      unfolding Let_def scale_def [symmetric] eq using that bg ps [OF Inr] by simp
  qed
  moreover have ?thesis if less: "\<not> 1 \<le> scale"
  proof -
    let ?nw = "float_to_int (nearest_double (of_int (width src) * scale))"
    let ?nh = "float_to_int (nearest_double (of_int (height src) * scale))"
    have s1: "scale \<le> 1" using less by simp
    have mw: "int_mul_float (width src) scale = Inr (nearest_double (of_int (width src) * scale))"
      using w s0 s1 by (rule int_mul_float_bounded [OF order_trans [OF zero_le_one]])
    have mh: "int_mul_float (height src) scale = Inr (nearest_double (of_int (height src) * scale))"
      using h s0 s1 by (rule int_mul_float_bounded [OF order_trans [OF zero_le_one]])
    show ?thesis
    proof (cases "resize src (?nw, ?nh)")
      case (Inl e)
      then show ?thesis
        unfolding Let_def scale_def [symmetric] eq using less mw mh by simp
    next
      case (Inr r)
      then show ?thesis
        unfolding Let_def scale_def [symmetric] eq using less mw mh bg ps [OF Inr] by simp
    qed
  qed
  ultimately show ?thesis by blast
qed

lemma process_image_fit_fits:
  assumes "original_image st = Some src" and "resize_mode st = ''fit''"
    and "data src \<noteq> Truncated" and "1 \<le> width src" and "1 \<le> height src"
    and "int_truediv tw (width src) = Inr sw" and "int_truediv th (height src) = Inr sh"
    and "1 \<le> min sw sh"
  shows "\<exists>background.
           process_image st tw th =
             Inr (Some (Image tw th (mode background)
               (Pasted background src ((tw - width src) div 2) ((th - height src) div 2))))
         \<and> width background = tw \<and> height background = th"
proof -
  have "1 \<le> sw" and "1 \<le> sh" using assms(8) by simp_all
  then have "0 \<le> tw" and "0 \<le> th"
    using int_truediv_Inr [OF assms(6)] int_truediv_Inr [OF assms(7)] assms(4,5)
      nearest_double_ge_one_imp_nonneg by blast+
  then have bg: "Image_new m (tw, th) c = Inr (Image tw th m (Filled c))" for m c
    by (simp add: Image_new_def)
  have rs: "resize src (width src, height src) = Inr src"
    using assms(3) by (rule resize_same)
  have ps: "paste b src (x, y) = Inr (Image (width b) (height b) (mode b) (Pasted b src x y))" for b x y
    using assms(3) by (simp add: paste_Inr)
  show ?thesis
    unfolding process_image_fit_scale [OF assms(1-3,6,7) refl]
    using assms(8) rs bg ps by auto
qed

subsection \<open>The size of the resampled image\<close>

text \<open>
  C1, as stated: in Fit mode with a scale below 1 the resampled image has the sides
  \<open>round (width * scale)\<close> and \<open>round (height * scale)\<close>, rounded to nearest. The
  code truncates instead: for a source of 8 by 7 pixels and a target of 2 by 7 the scale
  is \<open>min (2 / 8) (7 / 7) = 1 / 4\<close>, rounding \<open>7 / 4\<close> gives 2, and the code pastes
  an image of height 1.
\<close>

theorem fit_rounding_counterexample:
  "process_image ((init 600 400 Missing)\<lparr>original_image := Some (Image 8 7 ''RGB'' (Decoded 0))\<rparr>) 2 7
     = Inr (Some (Image 2 7 ''RGB''
         (Pasted (Image 2 7 ''RGB'' (Filled [255, 255, 255]))
                 (Image 2 1 ''RGB'' (Resampled (Image 8 7 ''RGB'' (Decoded 0)))) 0 3)))
   \<and> min (2 / 8) (7 / 7) < (1 :: rat)
   \<and> round (7 * min (2 / 8) (7 / 7) :: rat) = 2
   \<and> round_half_even (7 * min (2 / 8) (7 / 7)) = 2"
  by code_simp

text \<open>
  C1, amended: in Fit mode, for a decoded source and a target with sides from 1 (all
  sides below \<open>2 ^ 53\<close>), when the scale is below 1 the sides asked of the resampler
  are the float products \<open>width * scale\<close> and \<open>height * scale\<close> truncated by
  \<^verbatim>\<open>int()\<close>, which is their floor; when both are at least 1 the image pasted on the
  canvas has exactly these sides, centred by floor division, and otherwise the resampler
  refuses the size with \<open>ValueError\<close>.
\<close>

theorem fit_inner_size_truncated:
  assumes "original_image st = Some src" and "resize_mode st = ''fit''"
    and "data src \<noteq> Truncated"
    and "1 \<le> width src" and "width src < 2 ^ 53" and "1 \<le> height src" and "height src < 2 ^ 53"
    and "1 \<le> tw" and "tw < 2 ^ 53" and "1 \<le> th" and "th < 2 ^ 53"
  shows "let scale = min (nearest_double (of_int tw / of_int (width src)))
                         (nearest_double (of_int th / of_int (height src)));
             new_w = float_to_int (nearest_double (of_int (width src) * scale));
             new_h = float_to_int (nearest_double (of_int (height src) * scale))
         in scale < 1 \<longrightarrow>
              new_w = \<lfloor>nearest_double (of_int (width src) * scale)\<rfloor>
            \<and> new_h = \<lfloor>nearest_double (of_int (height src) * scale)\<rfloor>
            \<and> (if 1 \<le> new_w \<and> 1 \<le> new_h
                then \<exists>background resized.
                       process_image st tw th =
                         Inr (Some (Image tw th (mode background)
                           (Pasted background resized ((tw - new_w) div 2) ((th - new_h) div 2))))
                     \<and> width resized = new_w \<and> height resized = new_h
                else process_image st tw th = Inl ValueError)"
proof -
  define scale where "scale = min (nearest_double (of_int tw / of_int (width src)))
                         (nearest_double (of_int th / of_int (height src)))"
  define new_w where "new_w = float_to_int (nearest_double (of_int (width src) * scale))"
  define new_h where "new_h = float_to_int (nearest_double (of_int (height src) * scale))"
  have s0: "0 \<le> scale"
    using assms by (simp add: scale_def nearest_double_nonneg)
  have fw: "new_w = \<lfloor>nearest_double (of_int (width src) * scale)\<rfloor>"
    using s0 assms(4) by (simp add: new_w_def float_to_int_def nearest_double_nonneg)
  have fh: "new_h = \<lfloor>nearest_double (of_int (height src) * scale)\<rfloor>"
    using s0 assms(6) by (simp add: new_h_def float_to_int_def nearest_double_nonneg)
  have eq: "scale < 1 \<Longrightarrow> process_image st tw th =
      and_then (resize src (new_w, new_h)) (\<lambda>resized.
           and_then
             (if mode src = ''RGBA'' \<or> mode src = ''P''
              then Image_new ''RGBA'' (tw, th) [255, 255, 255, 0]
              else Image_new ''RGB'' (tw, th) [255, 255, 255])
             (\<lambda>background.
                Inr (Some (Image tw th (mode background)
                  (Pasted background resized ((tw - new_w) div 2) ((th - new_h) div 2))))))"
    using process_image_fit_bounded [OF assms(1-7), of tw th] assms(8-11)
    by (simp add: Let_def scale_def [symmetric] new_w_def new_h_def)
  have good: "\<exists>background resized.
                 process_image st tw th =
                   Inr (Some (Image tw th (mode background)
                     (Pasted background resized ((tw - new_w) div 2) ((th - new_h) div 2))))
               \<and> width resized = new_w \<and> height resized = new_h"
    if lt: "scale < 1" and nw: "1 \<le> new_w" and nh: "1 \<le> new_h"
  proof -
    obtain r where r: "resize src (new_w, new_h) = Inr r" "width r = new_w" "height r = new_h"
      using resize_ok [OF assms(3), of "(new_w, new_h)"] nw nh by auto
    show ?thesis
      using eq [OF lt] r assms(8,10) by (auto simp: Image_new_def)
  qed
  have bad: "process_image st tw th = Inl ValueError"
    if "scale < 1" and "\<not> (1 \<le> new_w \<and> 1 \<le> new_h)"
  proof -
    have "resize src (new_w, new_h) = Inl ValueError"
      using that(2) assms(3,4,6) by (intro resize_refused) auto
    then show ?thesis using eq [OF that(1)] by simp
  qed
  show ?thesis
    unfolding Let_def scale_def [symmetric] new_w_def [symmetric] new_h_def [symmetric]
    using fw fh good bad by auto
qed

theorem fit_inner_size_truncated_witness:
  "\<exists>background resized.
     process_image ((init 600 400 Missing)\<lparr>original_image := Some (Image 8 7 ''RGB'' (Decoded 0))\<rparr>) 2 7
       = Inr (Some (Image 2 7 (mode background) (Pasted background resized 0 3)))
     \<and> width resized = 2 \<and> height resized = 1"
  using fit_inner_size_truncated
    [of "(init 600 400 Missing)\<lparr>original_image := Some (Image 8 7 ''RGB'' (Decoded 0))\<rparr>"
        "Image 8 7 ''RGB'' (Decoded 0)" 2 7]
  by (simp add: init_def nearest_double_examples float_to_int_def Let_def)

subsection \<open>No enlargement\<close>

text \<open>
  C2: Fit mode never enlarges the source. For a source with sides from 1 and below
  \<open>2 ^ 53\<close>, every image the operation returns is a canvas with an image pasted on it
  whose sides do not exceed those of the source. Whenever the scale is at least 1, and so
  whenever the source fits within a target with sides below \<open>2 ^ 53\<close>, the pasted image
  is the source itself, unchanged, centred on a canvas of the target's size: the scale is
  clamped to 1.
\<close>

theorem fit_never_enlarges:
  assumes "original_image st = Some src" and "resize_mode st = ''fit''"
    and "1 \<le> width src" and "width src < 2 ^ 53"
    and "1 \<le> height src" and "height src < 2 ^ 53"
  shows "(\<forall>out. process_image st tw th = Inr (Some out) \<longrightarrow>
            (\<exists>background resized x y.
               data out = Pasted background resized x y
             \<and> width resized \<le> width src \<and> height resized \<le> height src))
       \<and> (\<forall>sw sh. data src \<noteq> Truncated
             \<and> int_truediv tw (width src) = Inr sw \<and> int_truediv th (height src) = Inr sh
             \<and> 1 \<le> min sw sh \<longrightarrow>
            (\<exists>background.
               process_image st tw th =
                 Inr (Some (Image tw th (mode background)
                   (Pasted background src ((tw - width src) div 2) ((th - height src) div 2))))
             \<and> width background = tw \<and> height background = th))
       \<and> (data src \<noteq> Truncated \<and> width src \<le> tw \<and> tw < 2 ^ 53
             \<and> height src \<le> th \<and> th < 2 ^ 53 \<longrightarrow>
            (\<exists>background.
               process_image st tw th =
                 Inr (Some (Image tw th (mode background)
                   (Pasted background src ((tw - width src) div 2) ((th - height src) div 2))))
             \<and> width background = tw \<and> height background = th))"
proof (intro conjI allI impI)
  fix out
  assume "process_image st tw th = Inr (Some out)"
  from process_image_fit_Some [OF assms(1,2) this]
  obtain sw sh nw nh inner bg where
    sizes: "(if 1 \<le> min sw sh then Inr (width src, height src)
             else and_then (int_mul_float (width src) (min sw sh)) (\<lambda>x.
                  and_then (int_mul_float (height src) (min sw sh)) (\<lambda>y.
                    Inr (float_to_int x, float_to_int y)))) = Inr (nw, nh)"
    and inner: "resize src (nw, nh) = Inr inner"
    and out: "out = Image tw th (mode bg) (Pasted bg inner ((tw - nw) div 2) ((th - nh) div 2))"
    by blast
  have "nw \<le> width src \<and> nh \<le> height src"
  proof (cases "1 \<le> min sw sh")
    case True
    then show ?thesis using sizes by simp
  next
    case False
    then have s1: "min sw sh \<le> 1" by linarith
    from sizes False obtain x y where
      x: "int_mul_float (width src) (min sw sh) = Inr x" and
      y: "int_mul_float (height src) (min sw sh) = Inr y" and
      n: "nw = float_to_int x" "nh = float_to_int y"
      by (auto simp: and_then_eq_Inr simp del: min.bounded_iff)
    have "x = nearest_double (of_int (width src) * min sw sh)"
      using x assms(3,4) by (intro int_mul_float_Inr) simp_all
    moreover have "y = nearest_double (of_int (height src) * min sw sh)"
      using y assms(5,6) by (intro int_mul_float_Inr) simp_all
    ultimately show ?thesis
      using n s1 assms(3-6) scaled_side_le [of "width src" "min sw sh"]
        scaled_side_le [of "height src" "min sw sh"] by simp
  qed
  then show "\<exists>background resized x y.
               data out = Pasted background resized x y
             \<and> width resized \<le> width src \<and> height resized \<le> height src"
    using out resize_size [OF inner] by simp
next
  fix sw sh
  assume a: "data src \<noteq> Truncated
             \<and> int_truediv tw (width src) = Inr sw \<and> int_truediv th (height src) = Inr sh
             \<and> 1 \<le> min sw sh"
  then show "\<exists>background.
               process_image st tw th =
                 Inr (Some (Image tw th (mode background)
                   (Pasted background src ((tw - width src) div 2) ((th - height src) div 2))))
             \<and> width background = tw \<and> height background = th"
    using process_image_fit_fits [OF assms(1,2) _ assms(3,5), of tw sw th sh] by blast
next
  assume a: "data src \<noteq> Truncated \<and> width src \<le> tw \<and> tw < 2 ^ 53
             \<and> height src \<le> th \<and> th < 2 ^ 53"
  have sw: "int_truediv tw (width src) = Inr (nearest_double (of_int tw / of_int (width src)))"
    using a assms(3) by (intro int_truediv_bounded) simp_all
  have sh: "int_truediv th (height src) = Inr (nearest_double (of_int th / of_int (height src)))"
    using a assms(5) by (intro int_truediv_bounded) simp_all
  have "(of_int 1 :: rat) \<le> of_int tw / of_int (width src)"
    using a assms(3) by (simp add: le_divide_eq)
  then have w1: "1 \<le> nearest_double (of_int tw / of_int (width src))"
    using nearest_double_ge_int [of 1 "of_int tw / of_int (width src)"] by simp
  have "(of_int 1 :: rat) \<le> of_int th / of_int (height src)"
    using a assms(5) by (simp add: le_divide_eq)
  then have h1: "1 \<le> nearest_double (of_int th / of_int (height src))"
    using nearest_double_ge_int [of 1 "of_int th / of_int (height src)"] by simp
  show "\<exists>background.
               process_image st tw th =
                 Inr (Some (Image tw th (mode background)
                   (Pasted background src ((tw - width src) div 2) ((th - height src) div 2))))
             \<and> width background = tw \<and> height background = th"
    using process_image_fit_fits [OF assms(1,2) _ assms(3,5) sw sh] a w1 h1 by simp
qed

theorem fit_never_enlarges_witness:
  "\<exists>background.
     process_image ((init 600 400 Missing)\<lparr>original_image := Some (Image 100 50 ''P'' (Decoded 0))\<rparr>) 500 500
       = Inr (Some (Image 500 500 (mode background)
           (Pasted background (Image 100 50 ''P'' (Decoded 0)) 200 225)))
     \<and> width background = 500 \<and> height background = 500"
  using fit_never_enlarges
    [of "(init 600 400 Missing)\<lparr>original_image := Some (Image 100 50 ''P'' (Decoded 0))\<rparr>"
        "Image 100 50 ''P'' (Decoded 0)" 500 500]
  by (simp add: init_def)

section \<open>The size of the output\<close>

text \<open>
  Every image \<open>process_image\<close> returns has the sides of the target, in every mode, and
  Stretch and Cut return one for every decoded source and target with sides from 1.
\<close>

lemma process_image_size:
  assumes "process_image st tw th = Inr (Some out)"
  shows "width out = tw \<and> height out = th"
proof -
  obtain src where src: "original_image st = Some src"
    using assms by (cases "original_image st") (simp_all add: process_image_def)
  consider "resize_mode st = ''stretch''" | "resize_mode st = ''cut''" | "resize_mode st = ''fit''"
    | "resize_mode st \<noteq> ''stretch''" "resize_mode st \<noteq> ''cut''" "resize_mode st \<noteq> ''fit''"
    by blast
  then show ?thesis
  proof cases
    case 1
    then show ?thesis
      using assms src
      by (auto simp: process_image_def and_then_eq_Inr copy_Inr dest: resize_size)
  next
    case 2
    then show ?thesis
      using assms src
      by (auto simp: process_image_def and_then_eq_Inr copy_Inr dest: ImageOps_fit_size)
  next
    case 3
    from process_image_fit_Some [OF src 3 assms] show ?thesis by auto
  next
    case 4
    then show ?thesis
      using assms src by (auto simp: process_image_def and_then_eq_Inr)
  qed
qed

lemma stretch_cut_exact:
  assumes "original_image st = Some src" and "data src \<noteq> Truncated"
    and "1 \<le> width src" and "1 \<le> height src" and "1 \<le> tw" and "1 \<le> th"
    and "resize_mode st = ''stretch'' \<or> resize_mode st = ''cut''"
  shows "\<exists>out. process_image st tw th = Inr (Some out) \<and> width out = tw \<and> height out = th"
proof -
  obtain r where "resize src (tw, th) = Inr r"
    using resize_ok [OF assms(2), of "(tw, th)"] assms(5,6) by auto
  moreover obtain c where "ImageOps_fit src (tw, th) = Inr c"
    using ImageOps_fit_ok [OF assms(2-4), of "(tw, th)"] assms(5,6) by auto
  ultimately have "\<exists>out. process_image st tw th = Inr (Some out)"
    using assms(1,2,7) by (auto simp: process_image_def copy_decoded)
  then show ?thesis using process_image_size by blast
qed

text \<open>
  C3: for every loaded source, every target with sides from 1 and every mode, the image
  returned has exactly the sides of the target. Fit mode breaks this on thin sources: for
  a source of 4 by 1 pixels and a target of 2 by 2 the scale is \<open>1 / 2\<close>, the height
  asked of the resampler is \<^verbatim>\<open>int(0.5)\<close>, that is 0, the resampler refuses it, and no
  image is returned.
\<close>

theorem fit_thin_source_fails:
  "process_image ((init 600 400 Missing)\<lparr>original_image := Some (Image 4 1 ''RGB'' (Decoded 0))\<rparr>) 2 2
     = Inl ValueError"
  by code_simp

section \<open>Orientation\<close>

text \<open>
  C4: for a decoded image, orientation tag 3 gives the image rotated by 180 degrees with
  its sides unchanged, tag 6 the image rotated by 270 degrees (90 degrees clockwise) with
  width and height swapped, tag 8 the image rotated by 90 degrees counter-clockwise with
  width and height swapped; every other tag value, a dictionary without the tag, and
  absent or unreadable metadata give the image unchanged.
\<close>

theorem exif_orientation_rotations:
  assumes "data (raster f) \<noteq> Truncated"
  shows "(\<forall>exif. getexif f = Exif_Dict exif \<and> map_of exif 274 = Some 3 \<longrightarrow>
            apply_exif_orientation f =
              Image (width (raster f)) (height (raster f)) (mode (raster f))
                (Transposed Deg180 (raster f)))
       \<and> (\<forall>exif. getexif f = Exif_Dict exif \<and> map_of exif 274 = Some 6 \<longrightarrow>
            apply_exif_orientation f =
              Image (height (raster f)) (width (raster f)) (mode (raster f))
                (Transposed Deg270 (raster f)))
       \<and> (\<forall>exif. getexif f = Exif_Dict exif \<and> map_of exif 274 = Some 8 \<longrightarrow>
            apply_exif_orientation f =
              Image (height (raster f)) (width (raster f)) (mode (raster f))
                (Transposed Deg90 (raster f)))
       \<and> (\<forall>exif. getexif f = Exif_Dict exif \<and> map_of exif 274 \<noteq> Some 3
              \<and> map_of exif 274 \<noteq> Some 6 \<and> map_of exif 274 \<noteq> Some 8 \<longrightarrow>
            apply_exif_orientation f = raster f)
       \<and> (getexif f = Exif_None \<or> (\<exists>e. getexif f = Exif_Raises e) \<longrightarrow>
            apply_exif_orientation f = raster f)"
  using assms
  by (auto simp: apply_exif_orientation_def exif_rotation_def rotate_expand_decoded Let_def)

theorem exif_orientation_rotations_witness:
  "apply_exif_orientation
     \<lparr>raster = Image 8 2 ''RGB'' (Decoded 0), getexif = Exif_Dict [(271, 0), (274, 6)]\<rparr>
   = Image 2 8 ''RGB'' (Transposed Deg270 (Image 8 2 ''RGB'' (Decoded 0)))"
  using exif_orientation_rotations
    [of "\<lparr>raster = Image 8 2 ''RGB'' (Decoded 0), getexif = Exif_Dict [(271, 0), (274, 6)]\<rparr>"]
  by simp

text \<open>
  C6: orientation normalisation never fails its caller. Whenever its \<^verbatim>\<open>try\<close> block
  raises, in particular when reading the metadata raises or when the rotation cannot load
  the pixel data, the result is the image it was given; and an image whose tag is absent
  or 1 is returned unchanged.
\<close>

theorem exif_orientation_never_fails:
  "(\<forall>e. exif_rotation f = Inl e \<longrightarrow> apply_exif_orientation f = raster f)
   \<and> ((\<exists>e. getexif f = Exif_Raises e) \<or> data (raster f) = Truncated \<longrightarrow>
        apply_exif_orientation f = raster f)
   \<and> (getexif f = Exif_None
        \<or> (\<exists>exif. getexif f = Exif_Dict exif
              \<and> (map_of exif 274 = None \<or> map_of exif 274 = Some 1)) \<longrightarrow>
        apply_exif_orientation f = raster f)"
  by (auto simp: apply_exif_orientation_def exif_rotation_def rotate_expand_def load_def Let_def
           split: exif_read.splits)

theorem exif_orientation_never_fails_witness:
  "exif_rotation \<lparr>raster = Image 8 2 ''RGB'' Truncated, getexif = Exif_Dict [(274, 6)]\<rparr>
     = Inl OSError
   \<and> apply_exif_orientation \<lparr>raster = Image 8 2 ''RGB'' Truncated, getexif = Exif_Dict [(274, 6)]\<rparr>
     = Image 8 2 ''RGB'' Truncated"
  using exif_orientation_never_fails
    [of "\<lparr>raster = Image 8 2 ''RGB'' Truncated, getexif = Exif_Dict [(274, 6)]\<rparr>"]
  by (simp add: exif_rotation_def rotate_expand_def load_def)

section \<open>The absent result\<close>

text \<open>
  C9, as stated: \<open>process_image\<close> returns \<^verbatim>\<open>None\<close> rather than raising for every loaded
  image when the mode is none of stretch, cut and fit. The image is copied before the
  mode is looked at, and a file is opened lazily: loading accepts a file whose pixel data
  cannot be read, and for that loaded image the copy raises \<open>OSError\<close> whatever the mode.
\<close>

theorem process_image_none_counterexample:
  "original_image
     ((load_image id ''a.png'' (Inr \<lparr>raster = Image 8 2 ''RGB'' Truncated, getexif = Exif_None\<rparr>)
        (init 600 400 Missing))\<lparr>resize_mode := ''crop''\<rparr>)
     = Some (Image 8 2 ''RGB'' Truncated)
   \<and> status_var
     ((load_image id ''a.png'' (Inr \<lparr>raster = Image 8 2 ''RGB'' Truncated, getexif = Exif_None\<rparr>)
        (init 600 400 Missing))\<lparr>resize_mode := ''crop''\<rparr>)
     = Caricato
   \<and> process_image
     ((load_image id ''a.png'' (Inr \<lparr>raster = Image 8 2 ''RGB'' Truncated, getexif = Exif_None\<rparr>)
        (init 600 400 Missing))\<lparr>resize_mode := ''crop''\<rparr>) 800 600
     = Inl OSError"
  by code_simp

text \<open>
  C9, amended: \<open>process_image\<close> returns \<^verbatim>\<open>None\<close>, and raises nothing, when no image is
  loaded, and also for every loaded image whose pixel data can be read when the mode is
  none of stretch, cut and fit; \<open>update_preview\<close> checks for that result and then leaves
  the state as it is. For a loaded image whose pixel data cannot be read the copy raises
  \<open>OSError\<close> in every mode, and \<open>update_preview\<close> catches whatever \<open>process_image\<close>
  raises and reports it in the status line.
\<close>

theorem process_image_none:
  "(original_image st = None \<longrightarrow> process_image st tw th = Inr None)
   \<and> (\<forall>src. original_image st = Some src \<and> data src \<noteq> Truncated
         \<and> resize_mode st \<noteq> ''stretch'' \<and> resize_mode st \<noteq> ''cut''
         \<and> resize_mode st \<noteq> ''fit'' \<longrightarrow>
        process_image st tw th = Inr None)
   \<and> (\<forall>w h. get_dimensions st = Some (w, h) \<and> process_image st w h = Inr None \<longrightarrow>
        update_preview st = st)
   \<and> (\<forall>src. original_image st = Some src \<and> data src = Truncated \<longrightarrow>
        process_image st tw th = Inl OSError)
   \<and> (\<forall>w h e. original_image st \<noteq> None \<and> get_dimensions st = Some (w, h)
         \<and> process_image st w h = Inl e \<longrightarrow>
        update_preview st = st\<lparr>status_var := Errore_anteprima e\<rparr>)"
  by (auto simp: process_image_def update_preview_def copy_decoded copy_def load_def
           split: option.splits)

theorem process_image_none_witness:
  "process_image ((init 600 400 Missing)
      \<lparr>original_image := Some (Image 8 2 ''RGB'' (Decoded 0)), resize_mode := ''crop''\<rparr>) 800 600
     = Inr None
   \<and> update_preview ((init 600 400 Missing)
      \<lparr>original_image := Some (Image 8 2 ''RGB'' (Decoded 0)), resize_mode := ''crop''\<rparr>)
     = (init 600 400 Missing)
      \<lparr>original_image := Some (Image 8 2 ''RGB'' (Decoded 0)), resize_mode := ''crop''\<rparr>"
  using process_image_none
    [of "(init 600 400 Missing)
      \<lparr>original_image := Some (Image 8 2 ''RGB'' (Decoded 0)), resize_mode := ''crop''\<rparr>" 800 600]
  by (simp add: init_def get_dimensions_def)

section \<open>Centring\<close>

lemma show_preview_centred:
  assumes "show_preview st processed = Inr (x, y, d)"
    and "0 \<le> width processed" and "width processed < 2 ^ 53"
    and "0 \<le> height processed" and "height processed < 2 ^ 53"
  shows "x = (canvas_winfo_width st - width d) div 2
       \<and> y = (canvas_winfo_height st - height d) div 2"
proof -
  from assms(1) obtain sw sh pw ph d0 where
    pw: "int_mul_float (width processed) (min (min sw sh) 1) = Inr pw" and
    ph: "int_mul_float (height processed) (min (min sw sh) 1) = Inr ph" and
    d0: "(if min (min sw sh) 1 < 1
          then resize processed (float_to_int pw, float_to_int ph) else Inr processed) = Inr d0" and
    d: "(if mode d0 = ''RGBA'' then convert d0 ''RGB'' else Inr d0) = Inr d" and
    x: "x = (canvas_winfo_width st - float_to_int pw) div 2" and
    y: "y = (canvas_winfo_height st - float_to_int ph) div 2"
    by (auto simp: show_preview_def and_then_eq_Inr Let_def)
  have dd: "width d = width d0 \<and> height d = height d0"
    using d convert_size [of d0 "''RGB''" d] by (auto split: if_splits)
  have "width d0 = float_to_int pw \<and> height d0 = float_to_int ph"
  proof (cases "min (min sw sh) 1 < 1")
    case True
    then have "resize processed (float_to_int pw, float_to_int ph) = Inr d0"
      using d0 by (simp only: if_True)
    then show ?thesis using resize_size [of processed "(float_to_int pw, float_to_int ph)" d0]
      by simp
  next
    case False
    then have one: "min (min sw sh) 1 = 1" by linarith
    have "d0 = processed" using d0 False by (simp only: if_False sum.inject)
    then show ?thesis
      using int_mul_float_one [OF pw [unfolded one] assms(2,3)]
        int_mul_float_one [OF ph [unfolded one] assms(4,5)] by simp
  qed
  then show ?thesis using dd x y by simp
qed

lemma update_preview_draws:
  assumes "canvas_item st = None" and "canvas_item (update_preview st) = Some item"
  shows "\<exists>w h processed. get_dimensions st = Some (w, h)
           \<and> process_image st w h = Inr (Some processed)
           \<and> show_preview (st\<lparr>processed_image := Some processed\<rparr>) processed = Inr item"
  using assms
  by (auto simp: update_preview_def Let_def split: option.splits sum.splits if_splits)

lemma get_dimensions_Some: "get_dimensions st = Some (w, h) \<Longrightarrow> 1 \<le> w \<and> 1 \<le> h"
  by (auto simp: get_dimensions_def split: option.splits if_splits)

lemma half_padding: "(d::int) - d div 2 - d div 2 = 0 \<or> d - d div 2 - d div 2 = 1"
  by presburger

text \<open>
  C5: in Fit mode the pasted image is placed at
  \<open>((target_w - new_w) div 2, (target_h - new_h) div 2)\<close>, and the preview is drawn at
  the same floor-division offset within the canvas (for dimensions below \<open>2 ^ 53\<close>). In
  both, the padding on the right exceeds the padding on the left by 0 or 1 pixel, and the
  padding below exceeds the padding above by 0 or 1 pixel.
\<close>

theorem centering_offsets:
  "(resize_mode st = ''fit'' \<and> process_image st tw th = Inr (Some out) \<longrightarrow>
      (\<exists>background resized x y.
         data out = Pasted background resized x y
       \<and> x = (tw - width resized) div 2 \<and> y = (th - height resized) div 2
       \<and> (width out - width resized - x) - x \<in> {0, 1}
       \<and> (height out - height resized - y) - y \<in> {0, 1}))
   \<and> (canvas_item st = None \<and> get_dimensions st = Some (w, h) \<and> w < 2 ^ 53 \<and> h < 2 ^ 53
       \<and> canvas_item (update_preview st) = Some (px, py, display_img) \<longrightarrow>
        px = (canvas_winfo_width st - width display_img) div 2
      \<and> py = (canvas_winfo_height st - height display_img) div 2
      \<and> (canvas_winfo_width st - width display_img - px) - px \<in> {0, 1}
      \<and> (canvas_winfo_height st - height display_img - py) - py \<in> {0, 1})"
proof (rule conjI; rule impI)
  assume a: "resize_mode st = ''fit'' \<and> process_image st tw th = Inr (Some out)"
  then obtain src where src: "original_image st = Some src"
    by (cases "original_image st") (simp_all add: process_image_def)
  from process_image_fit_Some [OF src] a
  obtain nw nh inner bg where
    inner: "resize src (nw, nh) = Inr inner" and
    out: "out = Image tw th (mode bg) (Pasted bg inner ((tw - nw) div 2) ((th - nh) div 2))"
    by blast
  have sz: "width inner = nw \<and> height inner = nh" using resize_size [OF inner] by simp
  have "(tw - nw - (tw - nw) div 2) - (tw - nw) div 2 \<in> {0, 1}"
    using half_padding [of "tw - nw"] by auto
  moreover have "(th - nh - (th - nh) div 2) - (th - nh) div 2 \<in> {0, 1}"
    using half_padding [of "th - nh"] by auto
  ultimately show "\<exists>background resized x y.
         data out = Pasted background resized x y
       \<and> x = (tw - width resized) div 2 \<and> y = (th - height resized) div 2
       \<and> (width out - width resized - x) - x \<in> {0, 1}
       \<and> (height out - height resized - y) - y \<in> {0, 1}"
    using out sz by simp
next
  assume a: "canvas_item st = None \<and> get_dimensions st = Some (w, h) \<and> w < 2 ^ 53 \<and> h < 2 ^ 53
       \<and> canvas_item (update_preview st) = Some (px, py, display_img)"
  then obtain processed where
    p: "process_image st w h = Inr (Some processed)" and
    s: "show_preview (st\<lparr>processed_image := Some processed\<rparr>) processed = Inr (px, py, display_img)"
    using update_preview_draws [of st "(px, py, display_img)"] by auto
  have sz: "width processed = w \<and> height processed = h" using process_image_size [OF p] .
  have pos: "1 \<le> w \<and> 1 \<le> h" using a get_dimensions_Some by blast
  have c: "px = (canvas_winfo_width st - width display_img) div 2
         \<and> py = (canvas_winfo_height st - height display_img) div 2"
    using show_preview_centred [OF s] sz pos a by simp
  have "(canvas_winfo_width st - width display_img
           - (canvas_winfo_width st - width display_img) div 2)
           - (canvas_winfo_width st - width display_img) div 2 \<in> {0, 1}"
    using half_padding [of "canvas_winfo_width st - width display_img"] by auto
  moreover have "(canvas_winfo_height st - height display_img
           - (canvas_winfo_height st - height display_img) div 2)
           - (canvas_winfo_height st - height display_img) div 2 \<in> {0, 1}"
    using half_padding [of "canvas_winfo_height st - height display_img"] by auto
  ultimately show "px = (canvas_winfo_width st - width display_img) div 2
      \<and> py = (canvas_winfo_height st - height display_img) div 2
      \<and> (canvas_winfo_width st - width display_img - px) - px \<in> {0, 1}
      \<and> (canvas_winfo_height st - height display_img - py) - py \<in> {0, 1}"
    using c by simp
qed

theorem centering_offsets_witness:
  "process_image
     ((init 601 400 Missing)\<lparr>original_image := Some (Image 1000 500 ''RGB'' (Decoded 0)),
        entry_width := Some 1200, entry_height := Some 601\<rparr>) 500 500
     = Inr (Some (Image 500 500 ''RGB''
         (Pasted (Image 500 500 ''RGB'' (Filled [255, 255, 255]))
            (Image 500 250 ''RGB'' (Resampled (Image 1000 500 ''RGB'' (Decoded 0)))) 0 125)))
   \<and> canvas_item (update_preview
     ((init 601 400 Missing)\<lparr>original_image := Some (Image 1000 500 ''RGB'' (Decoded 0)),
        entry_width := Some 1200, entry_height := Some 601\<rparr>))
     = Some (0, 49,
         Image 601 301 ''RGB'' (Resampled (Image 1200 601 ''RGB''
           (Pasted (Image 1200 601 ''RGB'' (Filled [255, 255, 255]))
             (Image 1000 500 ''RGB'' (Decoded 0)) 100 50))))
   \<and> (400 - 301 - 49) - 49 = (1 :: int)"
proof -
  let ?S = "(init 601 400 Missing)\<lparr>original_image := Some (Image 1000 500 ''RGB'' (Decoded 0)),
        entry_width := Some 1200, entry_height := Some 601\<rparr>"
  let ?out = "Image 500 500 ''RGB''
         (Pasted (Image 500 500 ''RGB'' (Filled [255, 255, 255]))
            (Image 500 250 ''RGB'' (Resampled (Image 1000 500 ''RGB'' (Decoded 0)))) 0 125)"
  let ?d = "Image 601 301 ''RGB'' (Resampled (Image 1200 601 ''RGB''
           (Pasted (Image 1200 601 ''RGB'' (Filled [255, 255, 255]))
             (Image 1000 500 ''RGB'' (Decoded 0)) 100 50)))"
  have p: "process_image ?S 500 500 = Inr (Some ?out)" by code_simp
  have u: "canvas_item (update_preview ?S) = Some (0, 49, ?d)" by code_simp
  show ?thesis
    using centering_offsets [of ?S 500 500 ?out 1200 601 0 49 ?d] p u
    by (simp add: init_def get_dimensions_def)
qed

section \<open>The aspect ratio\<close>

lemma update_preview_frame:
  "original_image (update_preview st) = original_image st
   \<and> aspect_ratio (update_preview st) = aspect_ratio st
   \<and> orig_width (update_preview st) = orig_width st
   \<and> orig_height (update_preview st) = orig_height st"
  by (simp add: update_preview_def Let_def split: option.splits sum.splits prod.splits)

lemma add_recent_file_frame:
  "original_image (add_recent_file p st) = original_image st
   \<and> aspect_ratio (add_recent_file p st) = aspect_ratio st
   \<and> orig_width (add_recent_file p st) = orig_width st
   \<and> orig_height (add_recent_file p st) = orig_height st"
  by (simp add: add_recent_file_def Let_def split: recent_file.splits)

lemma load_image_ratio:
  assumes "img = (if preserve_exif st then apply_exif_orientation f else raster f)"
    and "st' = load_image str_Path filepath (Inr f) st"
  shows "(height img = 0 \<longrightarrow> aspect_ratio st' = 1 \<and> status_var st' = Caricato)
       \<and> (1 \<le> height img \<and> 0 \<le> width img \<and> width img < 2 ^ 53 \<longrightarrow>
            aspect_ratio st' = nearest_double (of_int (width img) / of_int (height img))
          \<and> status_var st' = Caricato)
       \<and> original_image st' = Some img
       \<and> orig_width st' = width img \<and> orig_height st' = height img"
proof -
  have zero: "height img = 0 \<Longrightarrow> aspect_ratio st' = 1 \<and> status_var st' = Caricato"
    unfolding assms
    by (simp add: load_image_def Let_def update_preview_frame add_recent_file_frame)
  have pos: "aspect_ratio st' = nearest_double (of_int (width img) / of_int (height img))
          \<and> status_var st' = Caricato"
    if "1 \<le> height img \<and> 0 \<le> width img \<and> width img < 2 ^ 53"
  proof -
    have "int_truediv (width img) (height img)
            = Inr (nearest_double (of_int (width img) / of_int (height img)))"
      using that by (intro int_truediv_bounded) simp_all
    then show ?thesis
      using that unfolding assms
      by (simp add: load_image_def Let_def update_preview_frame add_recent_file_frame)
  qed
  have rest: "original_image st' = Some img
       \<and> orig_width st' = width img \<and> orig_height st' = height img"
    unfolding assms
    by (simp add: load_image_def Let_def update_preview_frame add_recent_file_frame
          split: sum.splits)
  show ?thesis using zero pos rest by blast
qed

text \<open>
  C10: loading guards the division by the height. For an image of height 0 the ratio is
  1.0 and loading completes; for a height from 1 (and a width below \<open>2 ^ 53\<close>) the
  ratio is the float quotient of width by height, so the fallback is not taken.
\<close>

theorem aspect_ratio_guard:
  assumes "img = (if preserve_exif st then apply_exif_orientation f else raster f)"
    and "st' = load_image str_Path filepath (Inr f) st"
  shows "orig_width st' = width img \<and> orig_height st' = height img
       \<and> (orig_height st' = 0 \<longrightarrow> aspect_ratio st' = 1 \<and> status_var st' = Caricato)
       \<and> (1 \<le> orig_height st' \<and> 0 \<le> orig_width st' \<and> orig_width st' < 2 ^ 53 \<longrightarrow>
            int_truediv (orig_width st') (orig_height st') = Inr (aspect_ratio st')
          \<and> aspect_ratio st' = nearest_double (of_int (orig_width st') / of_int (orig_height st'))
          \<and> status_var st' = Caricato)"
proof -
  have "int_truediv (width img) (height img)
          = Inr (nearest_double (of_int (width img) / of_int (height img)))"
    if "1 \<le> height img \<and> 0 \<le> width img \<and> width img < 2 ^ 53"
    using that by (intro int_truediv_bounded) simp_all
  then show ?thesis using load_image_ratio [OF assms] by auto
qed

theorem aspect_ratio_guard_witness:
  "aspect_ratio (load_image id ''a.png''
      (Inr \<lparr>raster = Image 8 0 ''RGB'' (Decoded 0), getexif = Exif_None\<rparr>) (init 600 400 Missing)) = 1
   \<and> status_var (load_image id ''a.png''
      (Inr \<lparr>raster = Image 8 0 ''RGB'' (Decoded 0), getexif = Exif_None\<rparr>) (init 600 400 Missing)) = Caricato
   \<and> aspect_ratio (load_image id ''a.png''
      (Inr \<lparr>raster = Image 8 2 ''RGB'' (Decoded 0), getexif = Exif_None\<rparr>) (init 600 400 Missing)) = 4"
proof -
  have four: "nearest_double 4 = 4" by code_simp
  have p: "preserve_exif (init 600 400 Missing)" by (simp add: init_def)
  have a: "apply_exif_orientation \<lparr>raster = Image 8 h ''RGB'' (Decoded 0), getexif = Exif_None\<rparr>
             = Image 8 h ''RGB'' (Decoded 0)" for h
    by (simp add: apply_exif_orientation_def exif_rotation_def)
  show ?thesis
    using aspect_ratio_guard
            [where st = "init 600 400 Missing" and filepath = "''a.png''" and str_Path = id
               and f = "\<lparr>raster = Image 8 0 ''RGB'' (Decoded 0), getexif = Exif_None\<rparr>",
             OF refl refl]
          aspect_ratio_guard
            [where st = "init 600 400 Missing" and filepath = "''a.png''" and str_Path = id
               and f = "\<lparr>raster = Image 8 2 ''RGB'' (Decoded 0), getexif = Exif_None\<rparr>",
             OF refl refl]
    by (auto simp: a four p)
qed




section \<open>Recent files\<close>

lemma add_recent_file_step:
  "recent_files (add_recent_file p st) =
     (case recent_files st of
        Missing \<Rightarrow> Json_List [p]
      | Unreadable \<Rightarrow> Unreadable
      | Json_List old \<Rightarrow> Json_List (take 5 (p # remove1 p old)))"
  by (simp add: add_recent_file_def MAX_RECENT_def Let_def remove1_idem split: recent_file.splits)

lemma take_remove1_take: "take n (remove1 x (take (Suc n) xs)) = take n (remove1 x xs)"
proof (induction xs arbitrary: n)
  case Nil
  then show ?case by simp
next
  case (Cons y ys)
  show ?case
  proof (cases n)
    case 0
    then show ?thesis by simp
  next
    case (Suc m)
    then show ?thesis using Cons.IH [of m] by simp
  qed
qed

lemma remdups_snoc: "remdups (xs @ [x]) = remdups (filter (\<lambda>y. y \<noteq> x) xs) @ [x]"
  by (induction xs) auto

lemma rev_remdups_snoc:
  "rev (remdups (xs @ [x])) = x # remove1 x (rev (remdups xs))"
proof -
  have "rev (remdups (xs @ [x])) = x # rev (remdups (filter (\<lambda>y. y \<noteq> x) xs))"
    by (simp add: remdups_snoc)
  also have "rev (remdups (filter (\<lambda>y. y \<noteq> x) xs)) = filter (\<lambda>y. y \<noteq> x) (rev (remdups xs))"
    by (simp add: remdups_filter rev_filter)
  also have "\<dots> = removeAll x (rev (remdups xs))"
    by (induction "rev (remdups xs)") (auto simp: removeAll_filter_not_eq intro: filter_cong)
  also have "\<dots> = remove1 x (rev (remdups xs))"
    by (simp add: distinct_remove1_removeAll)
  finally show ?thesis .
qed

lemma recent_files_history:
  assumes "recent_files st = Missing"
  shows "recent_files (foldl (\<lambda>s p. add_recent_file p s) st ps) =
           (if ps = [] then Missing else Json_List (take 5 (rev (remdups ps))))"
proof (induction ps rule: rev_induct)
  case Nil
  then show ?case using assms by simp
next
  case (snoc x xs)
  show ?case
  proof (cases "xs = []")
    case True
    then show ?thesis using assms by (simp add: add_recent_file_step)
  next
    case False
    have "take 5 (x # remove1 x (take 5 (rev (remdups xs))))
            = x # take 4 (remove1 x (take (Suc 4) (rev (remdups xs))))" by simp
    also have "\<dots> = x # take 4 (remove1 x (rev (remdups xs)))"
      by (simp only: take_remove1_take)
    also have "\<dots> = take 5 (rev (remdups (xs @ [x])))"
      by (simp add: rev_remdups_snoc)
    finally show ?thesis
      using False snoc.IH by (simp add: add_recent_file_step)
  qed
qed

text \<open>
  C8: after every insertion the file of recent paths holds at most 5 paths without
  duplicates, the inserted path first. Starting without a file, after any sequence of
  insertions it holds the five most recently inserted distinct paths, most recent first;
  and inserting into a list without duplicates puts the path in front of the others,
  removing its earlier occurrence instead of keeping a duplicate.
\<close>

theorem recent_files_after_insertions:
  "(recent_files st = Missing \<longrightarrow>
      (\<exists>recent. recent_files (foldl (\<lambda>s p. add_recent_file p s) st (ps @ [filepath]))
                  = Json_List recent
         \<and> length recent \<le> 5 \<and> distinct recent \<and> hd recent = filepath
         \<and> recent = take MAX_RECENT (rev (remdups (ps @ [filepath])))))
   \<and> (\<forall>old. recent_files st = Json_List old \<and> distinct old \<longrightarrow>
        (\<exists>recent. recent_files (add_recent_file filepath st) = Json_List recent
           \<and> length recent \<le> 5 \<and> distinct recent \<and> hd recent = filepath
           \<and> recent = take MAX_RECENT (filepath # remove1 filepath old)))"
proof (rule conjI; intro allI impI)
  assume m: "recent_files st = Missing"
  have "distinct (take 5 (rev (remdups (ps @ [filepath]))))"
    by (intro distinct_take) simp
  moreover have "hd (take 5 (rev (remdups (ps @ [filepath])))) = filepath"
    by (simp add: rev_remdups_snoc)
  ultimately show "\<exists>recent. recent_files (foldl (\<lambda>s p. add_recent_file p s) st (ps @ [filepath]))
                  = Json_List recent
         \<and> length recent \<le> 5 \<and> distinct recent \<and> hd recent = filepath
         \<and> recent = take MAX_RECENT (rev (remdups (ps @ [filepath])))"
    using recent_files_history [OF m, of "ps @ [filepath]"] by (simp add: MAX_RECENT_def)
next
  fix old
  assume o: "recent_files st = Json_List old \<and> distinct old"
  then have "distinct (take 5 (filepath # remove1 filepath old))"
    by (intro distinct_take) simp
  then show "\<exists>recent. recent_files (add_recent_file filepath st) = Json_List recent
           \<and> length recent \<le> 5 \<and> distinct recent \<and> hd recent = filepath
           \<and> recent = take MAX_RECENT (filepath # remove1 filepath old)"
    using o by (simp add: add_recent_file_step MAX_RECENT_def)
qed

theorem recent_files_after_insertions_witness:
  "recent_files (foldl (\<lambda>s p. add_recent_file p s) (init 600 400 Missing)
      ([''a'', ''b'', ''c'', ''a'', ''d'', ''e'', ''f''] @ [''c'']))
     = Json_List [''c'', ''f'', ''e'', ''d'', ''a'']"
  using recent_files_after_insertions
    [of "init 600 400 Missing" "[''a'', ''b'', ''c'', ''a'', ''d'', ''e'', ''f'']" "''c''"]
  by (simp add: init_def MAX_RECENT_def)

end
